theory Spec2Isabelle
  imports Complex_Main "HOL-Library.Char_ord" "HOL-Library.List_Lexorder"
begin

section \<open>Content data model (backend types/content.ts)\<close>

text \<open>
  The three interfaces of the content model. The field names carry a prefix because
  \<open>id\<close>, \<open>text\<close> and \<open>term\<close> are taken in Isabelle: \<open>s_id\<close> is \<open>Sentence.id\<close>,
  \<open>a_term\<close> is \<open>Acronym.term\<close>, and so on. Strings are lists of characters; the
  length of a string is the length of the list.
\<close>

record Sentence =
  s_id :: string
  s_text :: string
  s_category :: string

record Acronym =
  a_id :: string
  a_term :: string
  a_meaning :: string

record ContentConfig =
  sentences :: "Sentence list"
  acronyms :: "Acronym list"

section \<open>Parsed JSON and the Zod schemas\<close>

text \<open>
  The value \<open>JSON.parse\<close> returns. An object is the list of its own properties in
  insertion order, each key once; \<open>map_of\<close> is the property read.
\<close>

datatype json =
    JNull
  | JBool bool
  | JNum rat
  | JStr string
  | JArr "json list"
  | JObj "(string \<times> json) list"

text \<open>JavaScript truthiness, as the operator \<open>||\<close> tests it.\<close>

fun truthy :: "json \<Rightarrow> bool" where
  "truthy JNull = False"
| "truthy (JBool b) = b"
| "truthy (JNum n) = (n \<noteq> 0)"
| "truthy (JStr s) = (s \<noteq> [])"
| "truthy (JArr xs) = True"
| "truthy (JObj kvs) = True"

text \<open>
  \<open>z.string().min(lo).max(hi)\<close> applied to a property that may be absent
  (\<open>None\<close> is \<open>undefined\<close>); \<open>hi = None\<close> when the schema sets no maximum.
\<close>

definition zString :: "nat \<Rightarrow> nat option \<Rightarrow> json option \<Rightarrow> string option" where
  "zString lo hi v =
     (case v of
        Some (JStr s) \<Rightarrow>
          (if lo \<le> length s \<and> (case hi of None \<Rightarrow> True | Some h \<Rightarrow> length s \<le> h)
           then Some s else None)
      | _ \<Rightarrow> None)"

definition SentenceSchema :: "json \<Rightarrow> Sentence option" where
  "SentenceSchema v =
     (case v of
        JObj kvs \<Rightarrow>
          (case zString 1 None (map_of kvs ''id'') of
             None \<Rightarrow> None
           | Some i \<Rightarrow>
               (case zString 1 (Some 500) (map_of kvs ''text'') of
                  None \<Rightarrow> None
                | Some t \<Rightarrow>
                    (case zString 1 (Some 100) (map_of kvs ''category'') of
                       None \<Rightarrow> None
                     | Some c \<Rightarrow> Some \<lparr>s_id = i, s_text = t, s_category = c\<rparr>)))
      | _ \<Rightarrow> None)"

definition AcronymSchema :: "json \<Rightarrow> Acronym option" where
  "AcronymSchema v =
     (case v of
        JObj kvs \<Rightarrow>
          (case zString 1 None (map_of kvs ''id'') of
             None \<Rightarrow> None
           | Some i \<Rightarrow>
               (case zString 1 (Some 50) (map_of kvs ''term'') of
                  None \<Rightarrow> None
                | Some t \<Rightarrow>
                    (case zString 1 (Some 500) (map_of kvs ''meaning'') of
                       None \<Rightarrow> None
                     | Some m \<Rightarrow> Some \<lparr>a_id = i, a_term = t, a_meaning = m\<rparr>)))
      | _ \<Rightarrow> None)"

text \<open>\<open>z.array(item)\<close>: the value must be an array and every element must parse.\<close>

definition zArray :: "(json \<Rightarrow> 'a option) \<Rightarrow> json option \<Rightarrow> 'a list option" where
  "zArray item v = (case v of Some (JArr xs) \<Rightarrow> those (map item xs) | _ \<Rightarrow> None)"

text \<open>\<open>ContentConfigSchema.safeParse\<close>: \<open>None\<close> is \<open>success: false\<close>.\<close>

definition ContentConfigSchema :: "json \<Rightarrow> ContentConfig option" where
  "ContentConfigSchema v =
     (case v of
        JObj kvs \<Rightarrow>
          (case zArray SentenceSchema (map_of kvs ''sentences'') of
             None \<Rightarrow> None
           | Some ss \<Rightarrow>
               (case zArray AcronymSchema (map_of kvs ''acronyms'') of
                  None \<Rightarrow> None
                | Some as \<Rightarrow> Some \<lparr>sentences = ss, acronyms = as\<rparr>))
      | _ \<Rightarrow> None)"

section \<open>The ConfigMap loader (services/configMapLoader.ts)\<close>

datatype error =
    ConfigMapFileNotFound
  | FailedToLoadJsonFile
  | TypeError
  | ContentValidationFailed
  | NoContentNoFallback
  | ServiceNotInitialized
  | InvalidQueryParameters

text \<open>
  What reading one content file gives: \<open>ENOENT\<close> when the file is missing,
  \<open>Unparseable\<close> when the read fails otherwise or \<open>JSON.parse\<close> throws, and the
  parsed value.
\<close>

datatype file_read = ENOENT | Unparseable | Parsed json

record disk =
  sentences_json :: file_read
  acronyms_json :: file_read

datatype event =
    contentUpdated ContentConfig
  | contentReloaded
  | contentError error

text \<open>
  The loader's fields that the content path uses. \<open>emitted\<close> is the sequence of
  \<open>EventEmitter.emit\<close> calls made so far, oldest first. Times are milliseconds.
\<close>

record ConfigMapLoader =
  cacheTimeout :: int
  fallbackContent :: "ContentConfig option"
  cachedContent :: "ContentConfig option"
  lastLoadTime :: int
  isLoading :: bool
  emitted :: "event list"

definition loadJsonFile :: "file_read \<Rightarrow> error + json" where
  "loadJsonFile f =
     (case f of
        Parsed v \<Rightarrow> Inr v
      | ENOENT \<Rightarrow> Inl ConfigMapFileNotFound
      | Unparseable \<Rightarrow> Inl FailedToLoadJsonFile)"

text \<open>
  \<open>file.sentences || file\<close> (and the same for \<open>acronyms\<close>): reading a property of
  \<open>null\<close> throws; every other value without the property, or with a falsy one,
  stands for itself.
\<close>

definition extractArray :: "string \<Rightarrow> json \<Rightarrow> error + json" where
  "extractArray key file =
     (case file of
        JNull \<Rightarrow> Inl TypeError
      | JObj kvs \<Rightarrow>
          (case map_of kvs key of
             Some v \<Rightarrow> if truthy v then Inr v else Inr file
           | None \<Rightarrow> Inr file)
      | _ \<Rightarrow> Inr file)"

text \<open>
  The body of the \<open>try\<close> block of \<open>loadContent\<close> up to the validation: both files
  are read and parsed, the arrays extracted and the pair validated.
\<close>

definition readContent :: "disk \<Rightarrow> error + ContentConfig" where
  "readContent d =
     (case loadJsonFile (sentences_json d) of
        Inl e \<Rightarrow> Inl e
      | Inr sentencesFile \<Rightarrow>
          (case loadJsonFile (acronyms_json d) of
             Inl e \<Rightarrow> Inl e
           | Inr acronymsFile \<Rightarrow>
               (case extractArray ''sentences'' sentencesFile of
                  Inl e \<Rightarrow> Inl e
                | Inr ss \<Rightarrow>
                    (case extractArray ''acronyms'' acronymsFile of
                       Inl e \<Rightarrow> Inl e
                     | Inr as \<Rightarrow>
                         (case ContentConfigSchema
                                 (JObj [(''sentences'', ss), (''acronyms'', as)]) of
                            None \<Rightarrow> Inl ContentValidationFailed
                          | Some c \<Rightarrow> Inr c)))))"

text \<open>
  \<open>loadContent\<close> on the files \<open>d\<close>; \<open>t\<close> is the clock when the load ends. A call
  that finds \<open>isLoading\<close> set returns at once. In the \<open>catch\<close> block content that is
  still cached swallows the error; with an empty cache the fallback content is taken
  when there is one, and the error is thrown again otherwise. The \<open>finally\<close> block
  clears the flag.
\<close>

definition loadContent :: "ConfigMapLoader \<Rightarrow> disk \<Rightarrow> int \<Rightarrow> (error + unit) \<times> ConfigMapLoader" where
  "loadContent s d t =
     (if isLoading s then (Inr (), s)
      else
        (case readContent d of
           Inr c \<Rightarrow>
             (Inr (), s\<lparr>cachedContent := Some c, lastLoadTime := t, isLoading := False,
                        emitted := emitted s @ [contentUpdated c]\<rparr>)
         | Inl e \<Rightarrow>
             (case cachedContent s of
                Some old \<Rightarrow> (Inr (), s\<lparr>isLoading := False\<rparr>)
              | None \<Rightarrow>
                  (case fallbackContent s of
                     Some f \<Rightarrow>
                       (Inr (), s\<lparr>cachedContent := Some f, lastLoadTime := t,
                                  isLoading := False,
                                  emitted := emitted s @ [contentUpdated f]\<rparr>)
                   | None \<Rightarrow> (Inl e, s\<lparr>isLoading := False\<rparr>)))))"

text \<open>\<open>getContent\<close>; \<open>now\<close> is the clock at the call.\<close>

definition getContent ::
  "ConfigMapLoader \<Rightarrow> int \<Rightarrow> disk \<Rightarrow> int \<Rightarrow> (error + ContentConfig) \<times> ConfigMapLoader" where
  "getContent s now d t =
     (case (if now - lastLoadTime s < cacheTimeout s then cachedContent s else None) of
        Some c \<Rightarrow> (Inr c, s)
      | None \<Rightarrow>
          (case loadContent s d t of
             (Inl e, s') \<Rightarrow> (Inl e, s')
           | (Inr u, s') \<Rightarrow>
               (case cachedContent s' of
                  None \<Rightarrow> (Inl NoContentNoFallback, s')
                | Some c \<Rightarrow> (Inr c, s'))))"

definition reloadContent :: "ConfigMapLoader \<Rightarrow> disk \<Rightarrow> int \<Rightarrow> (error + unit) \<times> ConfigMapLoader" where
  "reloadContent s d t = loadContent (s\<lparr>cachedContent := None\<rparr>) d t"

text \<open>The body of the debounced timer that \<open>handleFileChange\<close> arms.\<close>

definition fileChangeReload :: "ConfigMapLoader \<Rightarrow> disk \<Rightarrow> int \<Rightarrow> ConfigMapLoader" where
  "fileChangeReload s d t =
     (case reloadContent s d t of
        (Inr u, s') \<Rightarrow> s'\<lparr>emitted := emitted s' @ [contentReloaded]\<rparr>
      | (Inl e, s') \<Rightarrow> s'\<lparr>emitted := emitted s' @ [contentError e]\<rparr>)"

text \<open>
  \<open>String.prototype.toLowerCase\<close> is a built-in of the language, not code of the
  loader: the functions that call it take it as the parameter \<open>toLowerCase\<close>. What is
  known of it here is its effect on strings of ASCII characters (all below 128): it
  replaces \<open>A\<close> to \<open>Z\<close> by \<open>a\<close> to \<open>z\<close> and leaves every other character, which is
  \<open>asciiLower\<close>. \<open>lowersAscii\<close> says that a function does so; nothing is said of its
  result on a string with a character outside ASCII.
\<close>

definition isAscii :: "string \<Rightarrow> bool" where
  "isAscii s = list_all (\<lambda>c. (of_char c :: nat) < 128) s"

definition asciiLowerChar :: "char \<Rightarrow> char" where
  "asciiLowerChar c =
     (if CHR ''A'' \<le> c \<and> c \<le> CHR ''Z'' then char_of (of_char c + (32::nat)) else c)"

definition asciiLower :: "string \<Rightarrow> string" where
  "asciiLower s = map asciiLowerChar s"

definition lowersAscii :: "(string \<Rightarrow> string) \<Rightarrow> bool" where
  "lowersAscii toLowerCase = (\<forall>s. isAscii s \<longrightarrow> toLowerCase s = asciiLower s)"

text \<open>
  Case-insensitive comparison of strings of ASCII characters as the specification words
  it: two such strings are equal up to case when they have the same length and,
  position by position, hold the same character or the upper-case and lower-case form
  of one of the letters \<open>A\<close> to \<open>Z\<close>.
\<close>

definition isUpper :: "char \<Rightarrow> bool" where
  "isUpper c = (CHR ''A'' \<le> c \<and> c \<le> CHR ''Z'')"

definition isLower :: "char \<Rightarrow> bool" where
  "isLower c = (CHR ''a'' \<le> c \<and> c \<le> CHR ''z'')"

definition sameLetter :: "char \<Rightarrow> char \<Rightarrow> bool" where
  "sameLetter x y =
     (x = y
      \<or> (isUpper x \<and> isLower y \<and> (of_char y :: nat) = of_char x + 32)
      \<or> (isUpper y \<and> isLower x \<and> (of_char x :: nat) = of_char y + 32))"

definition equalsIgnoreCase :: "string \<Rightarrow> string \<Rightarrow> bool" where
  "equalsIgnoreCase a b = list_all2 sameLetter a b"

text \<open>\<open>getSentences(category?)\<close>: \<open>!category\<close> holds for \<open>undefined\<close> and for \<open>""\<close>.\<close>

definition getSentences ::
  "(string \<Rightarrow> string) \<Rightarrow> ConfigMapLoader \<Rightarrow> int \<Rightarrow> disk \<Rightarrow> int \<Rightarrow> string option
     \<Rightarrow> (error + Sentence list) \<times> ConfigMapLoader" where
  "getSentences toLowerCase s now d t category =
     (case getContent s now d t of
        (Inl e, s') \<Rightarrow> (Inl e, s')
      | (Inr content, s') \<Rightarrow>
          (case category of
             None \<Rightarrow> (Inr (sentences content), s')
           | Some c \<Rightarrow>
               if c = [] then (Inr (sentences content), s')
               else (Inr (filter (\<lambda>sentence. toLowerCase (s_category sentence) = toLowerCase c)
                            (sentences content)), s')))"

text \<open>
  \<open>[...new Set(xs)]\<close>: the elements of \<open>xs\<close> in the order of their first occurrence.
\<close>

fun newSet :: "'a list \<Rightarrow> 'a list" where
  "newSet [] = []"
| "newSet (x # xs) = x # newSet (filter (\<lambda>y. y \<noteq> x) xs)"

text \<open>
  \<open>getCategories\<close>. \<open>Array.prototype.sort\<close> without a comparator orders strings by
  their code units, the lexicographic order of the character lists.
\<close>

definition getCategories ::
  "ConfigMapLoader \<Rightarrow> int \<Rightarrow> disk \<Rightarrow> int \<Rightarrow> (error + string list) \<times> ConfigMapLoader" where
  "getCategories s now d t =
     (case getContent s now d t of
        (Inl e, s') \<Rightarrow> (Inl e, s')
      | (Inr content, s') \<Rightarrow> (Inr (sort (newSet (map s_category (sentences content)))), s'))"

text \<open>The export \<open>defaultFallbackContent\<close> of the loader's module.\<close>

definition defaultFallbackContent :: ContentConfig where
  "defaultFallbackContent =
     \<lparr>sentences =
        [\<lparr>s_id = ''fallback-1'', s_text = ''The best way to scale Kubernetes is...'',
          s_category = ''Kubernetes''\<rparr>,
         \<lparr>s_id = ''fallback-2'',
          s_text = ''When implementing DevOps, the most important thing is...'',
          s_category = ''DevOps''\<rparr>,
         \<lparr>s_id = ''fallback-3'', s_text = ''Observability helps teams by...'',
          s_category = ''Observability''\<rparr>,
         \<lparr>s_id = ''fallback-4'', s_text = ''Building a strong engineering culture requires...'',
          s_category = ''Culture''\<rparr>],
      acronyms =
        [\<lparr>a_id = ''fallback-1'', a_term = ''K8s'', a_meaning = ''Kubernetes''\<rparr>,
         \<lparr>a_id = ''fallback-2'', a_term = ''CI/CD'',
          a_meaning = ''Continuous Integration/Continuous Deployment''\<rparr>,
         \<lparr>a_id = ''fallback-3'', a_term = ''SRE'', a_meaning = ''Site Reliability Engineering''\<rparr>,
         \<lparr>a_id = ''fallback-4'', a_term = ''YAML'', a_meaning = ''YAML Ain't Markup Language''\<rparr>]\<rparr>"

section \<open>The API error handler (middleware/errorHandler.ts)\<close>

text \<open>
  An error as the handler sees it: the class that \<open>instanceof\<close> finds, and the
  \<open>statusCode\<close> property when the error carries one.
\<close>

datatype error_class = ZodError | ValidationError | NotFoundError | DatabaseError | OtherError

record api_error =
  err_class :: error_class
  statusCode :: "int option"

text \<open>The HTTP status \<open>errorHandler\<close> answers with; a \<open>statusCode\<close> of 0 is falsy.\<close>

definition errorHandler :: "api_error \<Rightarrow> int" where
  "errorHandler e =
     (if err_class e = ZodError then 400
      else if err_class e = ValidationError then 400
      else if err_class e = NotFoundError then 404
      else if err_class e = DatabaseError then 500
      else (case statusCode e of
              Some c \<Rightarrow> if c \<noteq> 0 then c else 500
            | None \<Rightarrow> 500))"

section \<open>The content service and the sentences route\<close>

text \<open>
  \<open>Array.prototype.slice(start, stop)\<close> on numbers: both bounds are truncated toward
  zero, a negative bound counts from the end, and the elements from \<open>k\<close> up to but not
  including \<open>final\<close> are copied.
\<close>

definition toIntegerOrInfinity :: "rat \<Rightarrow> int" where
  "toIntegerOrInfinity r = (if r < 0 then - \<lfloor>- r\<rfloor> else \<lfloor>r\<rfloor>)"

definition slice :: "'a list \<Rightarrow> rat \<Rightarrow> rat \<Rightarrow> 'a list" where
  "slice xs start stop =
     (let len = int (length xs);
          relativeStart = toIntegerOrInfinity start;
          k = (if relativeStart < 0 then max (len + relativeStart) 0 else min relativeStart len);
          relativeEnd = toIntegerOrInfinity stop;
          final = (if relativeEnd < 0 then max (len + relativeEnd) 0 else min relativeEnd len)
      in map (\<lambda>i. xs ! i) [nat k ..< nat final])"














section \<open>The client-side content manager (frontend hooks/useContentManager.ts)\<close>

text \<open>
  \<open>historyRef.current\<close>. The fields \<open>sentences\<close> and \<open>acronyms\<close> carry the prefix
  \<open>h_\<close> here. The cap that \<open>addToHistory\<close> applies is \<open>opts.maxHistorySize\<close>, a
  parameter of the functions below.
\<close>

record ContentHistory =
  h_sentences :: "string list"
  h_acronyms :: "string list"
  maxHistorySize :: nat

datatype content_type = Sentences | Acronyms

definition initialHistory :: "nat \<Rightarrow> ContentHistory" where
  "initialHistory optsMax = \<lparr>h_sentences = [], h_acronyms = [], maxHistorySize = optsMax\<rparr>"

text \<open>\<open>historyRef.current[type]\<close>, read and written.\<close>

definition historyOf :: "content_type \<Rightarrow> ContentHistory \<Rightarrow> string list" where
  "historyOf type h = (case type of Sentences \<Rightarrow> h_sentences h | Acronyms \<Rightarrow> h_acronyms h)"

definition setHistoryOf :: "content_type \<Rightarrow> string list \<Rightarrow> ContentHistory \<Rightarrow> ContentHistory" where
  "setHistoryOf type ids h =
     (case type of Sentences \<Rightarrow> h\<lparr>h_sentences := ids\<rparr> | Acronyms \<Rightarrow> h\<lparr>h_acronyms := ids\<rparr>)"

definition addToHistory :: "nat \<Rightarrow> content_type \<Rightarrow> string \<Rightarrow> ContentHistory \<Rightarrow> ContentHistory" where
  "addToHistory optsMax type i h =
     (let history = historyOf type h;
          filteredHistory = filter (\<lambda>item. item \<noteq> i) history
      in setHistoryOf type (slice (i # filteredHistory) 0 (of_nat optsMax)) h)"

definition clearHistory :: "nat \<Rightarrow> ContentHistory" where
  "clearHistory optsMax = \<lparr>h_sentences = [], h_acronyms = [], maxHistorySize = optsMax\<rparr>"

definition getFilteredSentences :: "Sentence list \<Rightarrow> string option \<Rightarrow> Sentence list" where
  "getFilteredSentences stateSentences category =
     (case category of
        None \<Rightarrow> stateSentences
      | Some c \<Rightarrow>
          if c = [] then stateSentences
          else filter (\<lambda>sentence. s_category sentence = c) stateSentences)"

definition getSentencesByCategory :: "Sentence list \<Rightarrow> string \<Rightarrow> Sentence list" where
  "getSentencesByCategory stateSentences category =
     filter (\<lambda>sentence. s_category sentence = category) stateSentences"

text \<open>
  \<open>candidates[Math.floor(Math.random() * candidates.length)]\<close> with \<open>r\<close> the number
  \<open>Math.random()\<close> returns, the product taken exactly; \<open>None\<close> is \<open>undefined\<close>.
\<close>

definition randomElement :: "rat \<Rightarrow> 'a list \<Rightarrow> 'a option" where
  "randomElement r xs =
     (let randomIndex = \<lfloor>r * of_nat (length xs)\<rfloor>
      in if 0 \<le> randomIndex \<and> randomIndex < int (length xs)
         then Some (xs ! nat randomIndex) else None)"

text \<open>
  \<open>getRandomSentence(category?)\<close> on the sentences of the state and the history; the
  result is the returned sentence (\<open>None\<close> is \<open>null\<close>) and the new history. Reading
  \<open>.id\<close> of \<open>undefined\<close> throws.
\<close>

definition getRandomSentence ::
  "nat \<Rightarrow> Sentence list \<Rightarrow> ContentHistory \<Rightarrow> string option \<Rightarrow> rat
     \<Rightarrow> error + Sentence option \<times> ContentHistory" where
  "getRandomSentence optsMax stateSentences h category r =
     (let availableSentences = getFilteredSentences stateSentences category
      in if availableSentences = [] then Inr (None, h)
         else
           (let history = h_sentences h;
                unshownSentences = filter (\<lambda>s. s_id s \<notin> set history) availableSentences;
                candidateSentences =
                  (if unshownSentences \<noteq> [] then unshownSentences else availableSentences)
            in case randomElement r candidateSentences of
                 None \<Rightarrow> Inl TypeError
               | Some selectedSentence \<Rightarrow>
                   Inr (Some selectedSentence,
                        addToHistory optsMax Sentences (s_id selectedSentence) h)))"

definition getRandomAcronym ::
  "nat \<Rightarrow> Acronym list \<Rightarrow> ContentHistory \<Rightarrow> rat \<Rightarrow> error + Acronym option \<times> ContentHistory" where
  "getRandomAcronym optsMax stateAcronyms h r =
     (if stateAcronyms = [] then Inr (None, h)
      else
        (let history = h_acronyms h;
             unshownAcronyms = filter (\<lambda>a. a_id a \<notin> set history) stateAcronyms;
             candidateAcronyms =
               (if unshownAcronyms \<noteq> [] then unshownAcronyms else stateAcronyms)
         in case randomElement r candidateAcronyms of
              None \<Rightarrow> Inl TypeError
            | Some selectedAcronym \<Rightarrow>
                Inr (Some selectedAcronym,
                     addToHistory optsMax Acronyms (a_id selectedAcronym) h)))"

text \<open>
  A sequence of calls of the two functions on fixed content. The state of a run is the
  list of the ids returned so far for each content type, most recent first, and the
  history.
\<close>

datatype call = GetRandomSentence "string option" rat | GetRandomAcronym rat

record run_state =
  shownSentences :: "string list"
  shownAcronyms :: "string list"
  history :: ContentHistory

definition step ::
  "nat \<Rightarrow> Sentence list \<Rightarrow> Acronym list \<Rightarrow> run_state \<Rightarrow> call \<Rightarrow> error + run_state" where
  "step optsMax stateSentences stateAcronyms st c =
     (case c of
        GetRandomSentence category r \<Rightarrow>
          (case getRandomSentence optsMax stateSentences (history st) category r of
             Inl e \<Rightarrow> Inl e
           | Inr (None, h) \<Rightarrow> Inr (st\<lparr>history := h\<rparr>)
           | Inr (Some x, h) \<Rightarrow>
               Inr (st\<lparr>shownSentences := s_id x # shownSentences st, history := h\<rparr>))
      | GetRandomAcronym r \<Rightarrow>
          (case getRandomAcronym optsMax stateAcronyms (history st) r of
             Inl e \<Rightarrow> Inl e
           | Inr (None, h) \<Rightarrow> Inr (st\<lparr>history := h\<rparr>)
           | Inr (Some x, h) \<Rightarrow>
               Inr (st\<lparr>shownAcronyms := a_id x # shownAcronyms st, history := h\<rparr>)))"

fun run ::
  "nat \<Rightarrow> Sentence list \<Rightarrow> Acronym list \<Rightarrow> run_state \<Rightarrow> call list \<Rightarrow> error + run_state" where
  "run optsMax stateSentences stateAcronyms st [] = Inr st"
| "run optsMax stateSentences stateAcronyms st (c # cs) =
     (case step optsMax stateSentences stateAcronyms st c of
        Inl e \<Rightarrow> Inl e
      | Inr st' \<Rightarrow> run optsMax stateSentences stateAcronyms st' cs)"

definition initialRun :: "nat \<Rightarrow> run_state" where
  "initialRun optsMax =
     \<lparr>shownSentences = [], shownAcronyms = [], history = initialHistory optsMax\<rparr>"

text \<open>
  The history after a sequence of \<open>addToHistory(type, id)\<close> calls, oldest call first,
  on the history the hook starts with; \<open>idsOf\<close> picks the ids added for one type.
\<close>

definition historyAfter :: "nat \<Rightarrow> (content_type \<times> string) list \<Rightarrow> ContentHistory" where
  "historyAfter optsMax events =
     foldl (\<lambda>h (type, i). addToHistory optsMax type i h) (initialHistory optsMax) events"

definition idsOf :: "content_type \<Rightarrow> (content_type \<times> string) list \<Rightarrow> string list" where
  "idsOf type events = map snd (filter (\<lambda>e. fst e = type) events)"

text \<open>
  The invariant of a run, for one content type: the history is within the cap, its head
  is the id shown last, and it holds the two ids shown last.
\<close>

definition recentInv :: "nat \<Rightarrow> string list \<Rightarrow> string list \<Rightarrow> bool" where
  "recentInv m shown hist =
     (length hist \<le> m \<and> set (take 2 shown) \<subseteq> set hist
      \<and> (shown = [] \<or> (hist \<noteq> [] \<and> hd hist = hd shown)))"

definition runInv :: "nat \<Rightarrow> run_state \<Rightarrow> bool" where
  "runInv m st =
     (recentInv m (shownSentences st) (h_sentences (history st))
      \<and> recentInv m (shownAcronyms st) (h_acronyms (history st)))"

text \<open>A call whose random number is one \<open>Math.random\<close> can return.\<close>

definition inRange :: "call \<Rightarrow> bool" where
  "inRange c =
     (case c of
        GetRandomSentence category r \<Rightarrow> 0 \<le> r \<and> r < 1
      | GetRandomAcronym r \<Rightarrow> 0 \<le> r \<and> r < 1)"

section \<open>Sample content\<close>

text \<open>Two content files in the wrapped form, and the content set they hold.\<close>

definition sampleSentences :: "json list" where
  "sampleSentences =
     [JObj [(''id'', JStr ''k8s-1''), (''text'', JStr ''Kubernetes makes...''),
            (''category'', JStr ''Kubernetes'')],
      JObj [(''id'', JStr ''devops-1''), (''text'', JStr ''DevOps practices improve...''),
            (''category'', JStr ''DevOps'')],
      JObj [(''id'', JStr ''k8s-2''), (''text'', JStr ''A pod is...''),
            (''category'', JStr ''Kubernetes'')]]"

definition sampleAcronyms :: "json list" where
  "sampleAcronyms =
     [JObj [(''id'', JStr ''k8s''), (''term'', JStr ''K8s''), (''meaning'', JStr ''Kubernetes'')]]"

definition sampleDisk :: disk where
  "sampleDisk =
     \<lparr>sentences_json = Parsed (JObj [(''sentences'', JArr sampleSentences)]),
      acronyms_json = Parsed (JObj [(''acronyms'', JArr sampleAcronyms)])\<rparr>"

definition sampleContent :: ContentConfig where
  "sampleContent =
     \<lparr>sentences =
        [\<lparr>s_id = ''k8s-1'', s_text = ''Kubernetes makes...'', s_category = ''Kubernetes''\<rparr>,
         \<lparr>s_id = ''devops-1'', s_text = ''DevOps practices improve...'', s_category = ''DevOps''\<rparr>,
         \<lparr>s_id = ''k8s-2'', s_text = ''A pod is...'', s_category = ''Kubernetes''\<rparr>],
      acronyms = [\<lparr>a_id = ''k8s'', a_term = ''K8s'', a_meaning = ''Kubernetes''\<rparr>]\<rparr>"

text \<open>A loader as the constructor leaves it, with a cache timeout of one second.\<close>

definition newLoader :: "ContentConfig option \<Rightarrow> ConfigMapLoader" where
  "newLoader fallback =
     \<lparr>cacheTimeout = 1000, fallbackContent = fallback, cachedContent = None,
      lastLoadTime = 0, isLoading = False, emitted = []\<rparr>"

text \<open>The same loader after it has loaded the sample content at time 5.\<close>

definition loadedLoader :: "ContentConfig option \<Rightarrow> ConfigMapLoader" where
  "loadedLoader fallback =
     \<lparr>cacheTimeout = 1000, fallbackContent = fallback, cachedContent = Some sampleContent,
      lastLoadTime = 5, isLoading = False, emitted = [contentUpdated sampleContent]\<rparr>"

text \<open>A disk whose sentences file no longer parses.\<close>

definition brokenDisk :: disk where
  "brokenDisk =
     \<lparr>sentences_json = Unparseable,
      acronyms_json = Parsed (JObj [(''acronyms'', JArr sampleAcronyms)])\<rparr>"

text \<open>A loader's files with the same id twice in each array.\<close>

definition duplicateIdDisk :: disk where
  "duplicateIdDisk =
     \<lparr>sentences_json = Parsed (JObj [(''sentences'', JArr
        [JObj [(''id'', JStr ''a''), (''text'', JStr ''First...''), (''category'', JStr ''c'')],
         JObj [(''id'', JStr ''a''), (''text'', JStr ''Second...''), (''category'', JStr ''c'')]])]),
      acronyms_json = Parsed (JObj [(''acronyms'', JArr
        [JObj [(''id'', JStr ''a''), (''term'', JStr ''T''), (''meaning'', JStr ''one'')],
         JObj [(''id'', JStr ''a''), (''term'', JStr ''U''), (''meaning'', JStr ''two'')]])])\<rparr>"

definition duplicateIdContent :: ContentConfig where
  "duplicateIdContent =
     \<lparr>sentences =
        [\<lparr>s_id = ''a'', s_text = ''First...'', s_category = ''c''\<rparr>,
         \<lparr>s_id = ''a'', s_text = ''Second...'', s_category = ''c''\<rparr>],
      acronyms =
        [\<lparr>a_id = ''a'', a_term = ''T'', a_meaning = ''one''\<rparr>,
         \<lparr>a_id = ''a'', a_term = ''U'', a_meaning = ''two''\<rparr>]\<rparr>"

text \<open>
  The sample content again, the sentences file as a bare array and the acronyms file
  as an object with one more key.
\<close>

definition bareDisk :: disk where
  "bareDisk =
     \<lparr>sentences_json = Parsed (JArr sampleSentences),
      acronyms_json =
        Parsed (JObj [(''version'', JNum 1), (''acronyms'', JArr sampleAcronyms)])\<rparr>"






text \<open>A pool of two sentences of one category.\<close>

definition twoSentences :: "Sentence list" where
  "twoSentences =
     [\<lparr>s_id = ''a'', s_text = ''First...'', s_category = ''c''\<rparr>,
      \<lparr>s_id = ''b'', s_text = ''Second...'', s_category = ''c''\<rparr>]"

text \<open>
  Four calls on the default fallback content with a history window of 2, and the state
  they lead to.
\<close>

definition fallbackCalls :: "call list" where
  "fallbackCalls =
     [GetRandomSentence None 0, GetRandomAcronym 0, GetRandomSentence None 0, GetRandomAcronym 0]"

definition fallbackRun :: run_state where
  "fallbackRun =
     \<lparr>shownSentences = [''fallback-2'', ''fallback-1''],
      shownAcronyms = [''fallback-2'', ''fallback-1''],
      history = \<lparr>h_sentences = [''fallback-2'', ''fallback-1''],
                 h_acronyms = [''fallback-2'', ''fallback-1''], maxHistorySize = 2\<rparr>\<rparr>"

text \<open>A sequence of \<open>addToHistory\<close> calls.\<close>

definition sampleEvents :: "(content_type \<times> string) list" where
  "sampleEvents =
     [(Sentences, ''a''), (Acronyms, ''x''), (Sentences, ''b''), (Sentences, ''a''),
      (Sentences, ''c'')]"

section \<open>Properties\<close>

subsection \<open>Helper facts\<close>

lemma readContent_sampleDisk: "readContent sampleDisk = Inr sampleContent"
  by (simp add: readContent_def sampleDisk_def sampleContent_def sampleSentences_def
      sampleAcronyms_def loadJsonFile_def extractArray_def ContentConfigSchema_def
      zArray_def SentenceSchema_def AcronymSchema_def zString_def)

lemma readContent_brokenDisk: "readContent brokenDisk = Inl FailedToLoadJsonFile"
  by (simp add: readContent_def brokenDisk_def loadJsonFile_def)

lemma set_newSet: "set (newSet xs) = set xs"
  by (induction xs rule: newSet.induct) auto

lemma distinct_newSet: "distinct (newSet xs)"
  by (induction xs rule: newSet.induct) (auto simp: set_newSet)

subsection \<open>The error handler\<close>

text \<open>
  Claim C7, as the specification states it, fails: an error of no recognised class that
  carries a \<open>statusCode\<close> is answered with that code, here 413, which is none of
  400, 404, 503 and 500.
\<close>

theorem errorHandler_status_counterexample:
  "errorHandler \<lparr>err_class = OtherError, statusCode = Some 413\<rparr> \<notin> {400, 404, 503, 500}"
  by (simp add: errorHandler_def)

text \<open>
  Claim C7, amended: a \<open>ZodError\<close> or \<open>ValidationError\<close> is answered with 400, a
  \<open>NotFoundError\<close> with 404, a \<open>DatabaseError\<close> with 500, any other error without a
  (non-zero) \<open>statusCode\<close> with 500, and any other error with a non-zero \<open>statusCode\<close>
  with that very code; so the status is 400, 404, 500 or the error's own \<open>statusCode\<close>.
\<close>

theorem errorHandler_status:
  "(err_class e = ZodError \<or> err_class e = ValidationError \<longrightarrow> errorHandler e = 400)
   \<and> (err_class e = NotFoundError \<longrightarrow> errorHandler e = 404)
   \<and> (err_class e = DatabaseError \<longrightarrow> errorHandler e = 500)
   \<and> (err_class e = OtherError \<and> (statusCode e = None \<or> statusCode e = Some 0)
        \<longrightarrow> errorHandler e = 500)
   \<and> (err_class e = OtherError \<and> statusCode e = Some c \<and> c \<noteq> 0 \<longrightarrow> errorHandler e = c)
   \<and> (errorHandler e \<in> {400, 404, 500} \<or> statusCode e = Some (errorHandler e))"
  by (cases "err_class e") (auto simp: errorHandler_def split: option.splits)

text \<open>Claim C7, amended, at one error of each kind.\<close>

theorem errorHandler_status_witness:
  "errorHandler \<lparr>err_class = ValidationError, statusCode = None\<rparr> = 400
   \<and> errorHandler \<lparr>err_class = ZodError, statusCode = None\<rparr> = 400
   \<and> errorHandler \<lparr>err_class = NotFoundError, statusCode = Some 503\<rparr> = 404
   \<and> errorHandler \<lparr>err_class = DatabaseError, statusCode = Some 503\<rparr> = 500
   \<and> errorHandler \<lparr>err_class = OtherError, statusCode = None\<rparr> = 500
   \<and> errorHandler \<lparr>err_class = OtherError, statusCode = Some 503\<rparr> = 503"
  using errorHandler_status [of "\<lparr>err_class = ValidationError, statusCode = None\<rparr>" 0]
    errorHandler_status [of "\<lparr>err_class = ZodError, statusCode = None\<rparr>" 0]
    errorHandler_status [of "\<lparr>err_class = NotFoundError, statusCode = Some 503\<rparr>" 0]
    errorHandler_status [of "\<lparr>err_class = DatabaseError, statusCode = Some 503\<rparr>" 0]
    errorHandler_status [of "\<lparr>err_class = OtherError, statusCode = None\<rparr>" 0]
    errorHandler_status [of "\<lparr>err_class = OtherError, statusCode = Some 503\<rparr>" 503]
  by simp

subsection \<open>The loader's cache\<close>

lemma getContent_newLoader_sampleDisk:
  "getContent (newLoader None) 10 sampleDisk 12 =
     (Inr sampleContent,
      \<lparr>cacheTimeout = 1000, fallbackContent = None, cachedContent = Some sampleContent,
       lastLoadTime = 12, isLoading = False, emitted = [contentUpdated sampleContent]\<rparr>)"
  by (simp add: getContent_def loadContent_def newLoader_def readContent_sampleDisk)

text \<open>
  Claim C3, as the specification states it, fails: with a stale cache, files that cannot
  be loaded and no fallback, \<open>getContent\<close> does not throw; it returns the stale content.
\<close>

theorem getContent_throws_counterexample:
  "\<not> ((\<exists>err. fst (getContent (loadedLoader None) 2000 brokenDisk 2001) = Inl err)
       \<longleftrightarrow> ((\<exists>err. readContent brokenDisk = Inl err)
            \<and> fallbackContent (loadedLoader None) = None))"
  by (simp add: getContent_def loadContent_def loadedLoader_def readContent_brokenDisk)

text \<open>
  Claim C3, amended. For every call of \<open>getContent\<close> made while no load is in flight:
  with cached content younger than \<open>cacheTimeout\<close> the call returns that content and
  leaves the loader as it is, whatever the files hold (no read); with an empty cache or
  one of age \<open>cacheTimeout\<close> or more the files are read, and content that loads and
  validates is cached, stamped, announced and returned; when the read fails, stale
  cached content is returned unchanged, else the fallback content is cached and
  returned; and the call throws exactly when the read fails, the cache is empty and
  there is no fallback.
\<close>

theorem getContent_cache_or_load:
  assumes "\<not> isLoading s"
  shows "(cachedContent s = Some c \<and> now - lastLoadTime s < cacheTimeout s
            \<longrightarrow> getContent s now d t = (Inr c, s))
       \<and> ((cachedContent s = None \<or> cacheTimeout s \<le> now - lastLoadTime s)
            \<and> readContent d = Inr fresh
            \<longrightarrow> getContent s now d t =
                  (Inr fresh, s\<lparr>cachedContent := Some fresh, lastLoadTime := t,
                                emitted := emitted s @ [contentUpdated fresh]\<rparr>))
       \<and> (cachedContent s = Some c \<and> cacheTimeout s \<le> now - lastLoadTime s
            \<and> readContent d = Inl e
            \<longrightarrow> getContent s now d t = (Inr c, s))
       \<and> (cachedContent s = None \<and> fallbackContent s = Some f \<and> readContent d = Inl e
            \<longrightarrow> getContent s now d t =
                  (Inr f, s\<lparr>cachedContent := Some f, lastLoadTime := t,
                            emitted := emitted s @ [contentUpdated f]\<rparr>))
       \<and> ((\<exists>err. fst (getContent s now d t) = Inl err)
            \<longleftrightarrow> (cachedContent s = None \<and> fallbackContent s = None
                 \<and> (\<exists>err. readContent d = Inl err)))"
  using assms
  by (cases "readContent d"; cases "cachedContent s"; cases "fallbackContent s")
     (auto simp: getContent_def loadContent_def)

text \<open>
  Claim C3, amended, on a loader that holds the sample content: a call within the
  timeout and a call after it with broken files both return the cached content, a call
  after the timeout with good files returns what the files hold, and a new loader
  without fallback throws on broken files.
\<close>

theorem getContent_cache_or_load_witness:
  "\<not> isLoading (loadedLoader None)
   \<and> getContent (loadedLoader None) 100 brokenDisk 101 = (Inr sampleContent, loadedLoader None)
   \<and> getContent (loadedLoader None) 2000 brokenDisk 2001 = (Inr sampleContent, loadedLoader None)
   \<and> fst (getContent (loadedLoader None) 2000 sampleDisk 2001) = Inr sampleContent
   \<and> lastLoadTime (snd (getContent (loadedLoader None) 2000 sampleDisk 2001)) = 2001
   \<and> (\<exists>err. fst (getContent (newLoader None) 0 brokenDisk 1) = Inl err)"
  using
    getContent_cache_or_load [where s = "loadedLoader None" and c = sampleContent
      and now = 100 and d = brokenDisk and t = 101 and e = FailedToLoadJsonFile]
    getContent_cache_or_load [where s = "loadedLoader None" and c = sampleContent
      and now = 2000 and d = brokenDisk and t = 2001 and e = FailedToLoadJsonFile]
    getContent_cache_or_load [where s = "loadedLoader None" and fresh = sampleContent
      and now = 2000 and d = sampleDisk and t = 2001]
    getContent_cache_or_load [where s = "newLoader None" and now = 0 and d = brokenDisk
      and t = 1]
  by (simp add: loadedLoader_def newLoader_def readContent_brokenDisk readContent_sampleDisk)

text \<open>
  A reload whose read fails, started while no load is in flight, leaves in the cache
  the fallback content, or nothing when there is no fallback: never the previous
  content.
\<close>

lemma reloadContent_failure:
  assumes "\<not> isLoading s" and "readContent d = Inl e"
  shows "cachedContent (snd (reloadContent s d t)) = fallbackContent s"
  using assms
  by (cases "fallbackContent s") (simp_all add: reloadContent_def loadContent_def)

text \<open>
  Claim C1 at a loader that holds the sample content when the sentences file stops
  parsing. Without fallback, \<open>reloadContent\<close> throws and leaves the cache empty, and
  the file-change reload reports \<open>contentError\<close> with the cache empty; with the default
  fallback, the cache holds the fallback afterwards and the events are
  \<open>contentUpdated\<close> and \<open>contentReloaded\<close>, no error. The previous content is gone in
  both cases.
\<close>

theorem reloadContent_discards_previous:
  "cachedContent (loadedLoader None) = Some sampleContent
   \<and> reloadContent (loadedLoader None) brokenDisk 2001
       = (Inl FailedToLoadJsonFile, (loadedLoader None)\<lparr>cachedContent := None\<rparr>)
   \<and> cachedContent (fileChangeReload (loadedLoader None) brokenDisk 2001) = None
   \<and> emitted (fileChangeReload (loadedLoader None) brokenDisk 2001)
       = [contentUpdated sampleContent, contentError FailedToLoadJsonFile]
   \<and> fst (reloadContent (loadedLoader (Some defaultFallbackContent)) brokenDisk 2001) = Inr ()
   \<and> cachedContent (fileChangeReload (loadedLoader (Some defaultFallbackContent)) brokenDisk 2001)
       = Some defaultFallbackContent
   \<and> emitted (fileChangeReload (loadedLoader (Some defaultFallbackContent)) brokenDisk 2001)
       = [contentUpdated sampleContent, contentUpdated defaultFallbackContent, contentReloaded]"
  by (simp add: reloadContent_def fileChangeReload_def loadContent_def loadedLoader_def
      readContent_brokenDisk)

subsection \<open>Categories\<close>

text \<open>
  Claim C10: whenever \<open>getContent\<close> returns content, \<open>getCategories\<close> returns exactly
  the categories that occur in the sentences of that content, in ascending order and
  each once.
\<close>

theorem getCategories_sorted_distinct:
  assumes "getContent s now d t = (Inr content, s')"
  shows "\<exists>cs. getCategories s now d t = (Inr cs, s')
           \<and> set cs = s_category ` set (sentences content)
           \<and> sorted cs \<and> distinct cs"
  using assms by (simp add: getCategories_def set_newSet distinct_newSet)

text \<open>Claim C10 on a new loader that reads the sample files.\<close>

theorem getCategories_sorted_distinct_witness:
  "getContent (newLoader None) 10 sampleDisk 12 =
     (Inr sampleContent,
      \<lparr>cacheTimeout = 1000, fallbackContent = None, cachedContent = Some sampleContent,
       lastLoadTime = 12, isLoading = False, emitted = [contentUpdated sampleContent]\<rparr>)
   \<and> (\<exists>cs. getCategories (newLoader None) 10 sampleDisk 12 =
         (Inr cs,
          \<lparr>cacheTimeout = 1000, fallbackContent = None, cachedContent = Some sampleContent,
           lastLoadTime = 12, isLoading = False, emitted = [contentUpdated sampleContent]\<rparr>)
        \<and> set cs = s_category ` set (sentences sampleContent)
        \<and> sorted cs \<and> distinct cs)"
  using getCategories_sorted_distinct [OF getContent_newLoader_sampleDisk]
    getContent_newLoader_sampleDisk
  by simp

subsection \<open>Category filtering\<close>

lemma of_char_asciiLowerChar:
  "(of_char (asciiLowerChar x) :: nat) =
     (if 65 \<le> (of_char x :: nat) \<and> (of_char x :: nat) \<le> 90 then of_char x + 32
      else of_char x)"
  by (simp add: asciiLowerChar_def less_eq_char_def)

lemma asciiLowerChar_eq_iff: "asciiLowerChar x = asciiLowerChar y \<longleftrightarrow> sameLetter x y"
proof -
  define m where "m = (of_char x :: nat)"
  define n where "n = (of_char y :: nat)"
  have "asciiLowerChar x = asciiLowerChar y
          \<longleftrightarrow> (of_char (asciiLowerChar x) :: nat) = of_char (asciiLowerChar y)"
    by simp
  then have a: "asciiLowerChar x = asciiLowerChar y
          \<longleftrightarrow> (if 65 \<le> m \<and> m \<le> 90 then m + 32 else m)
               = (if 65 \<le> n \<and> n \<le> 90 then n + 32 else n)"
    unfolding of_char_asciiLowerChar m_def n_def .
  have b: "x = y \<longleftrightarrow> m = n"
    by (simp add: m_def n_def)
  have c: "sameLetter x y
          \<longleftrightarrow> (m = n
               \<or> (65 \<le> m \<and> m \<le> 90 \<and> 97 \<le> n \<and> n \<le> 122 \<and> n = m + 32)
               \<or> (65 \<le> n \<and> n \<le> 90 \<and> 97 \<le> m \<and> m \<le> 122 \<and> m = n + 32))"
    unfolding sameLetter_def isUpper_def isLower_def less_eq_char_def b
    by (simp add: m_def n_def)
  show ?thesis
    unfolding a c by (simp split: if_splits) arith
qed

text \<open>
  Comparing the lower-cased forms of two strings of ASCII characters is their
  case-insensitive comparison.
\<close>

lemma asciiLower_eq_iff: "asciiLower a = asciiLower b \<longleftrightarrow> equalsIgnoreCase a b"
  unfolding asciiLower_def equalsIgnoreCase_def
proof (induction a arbitrary: b)
  case Nil
  then show ?case by auto
next
  case (Cons x a)
  then show ?case by (cases b) (auto simp: asciiLowerChar_eq_iff)
qed

lemma lowersAscii_asciiLower: "lowersAscii asciiLower"
  by (simp add: lowersAscii_def)

lemma isAscii_sampleContent: "\<forall>x \<in> set (sentences sampleContent). isAscii (s_category x)"
  by (simp add: sampleContent_def isAscii_def)

text \<open>
  Claim C4, as the specification states it, fails twice, whatever \<open>toLowerCase\<close>
  does. For the category \<open>""\<close> the loader returns every
  sentence, although no category equals \<open>""\<close>; and the client-side
  \<open>getSentencesByCategory\<close> compares exactly, so \<open>kubernetes\<close> does not find the
  sentences of category \<open>Kubernetes\<close>.
\<close>

theorem getSentences_category_counterexample:
  "(\<forall>toLowerCase.
      fst (getSentences toLowerCase (loadedLoader None) 100 sampleDisk 101 (Some []))
        \<noteq> Inr (filter (\<lambda>x. equalsIgnoreCase (s_category x) []) (sentences sampleContent)))
   \<and> getSentencesByCategory (sentences sampleContent) ''kubernetes''
     \<noteq> filter (\<lambda>x. equalsIgnoreCase (s_category x) ''kubernetes'') (sentences sampleContent)"
  by (simp add: getSentences_def getContent_def loadedLoader_def sampleContent_def
      getSentencesByCategory_def equalsIgnoreCase_def sameLetter_def isUpper_def isLower_def)

text \<open>
  Claim C4, amended, for the loader's \<open>getSentences\<close>. Whenever \<open>getContent\<close> returns
  content: with no category, and with the empty string, the call returns all sentences;
  for every non-empty category \<open>c\<close> it returns, in their order, exactly the sentences
  whose lower-cased category is the lower-cased \<open>c\<close>. When \<open>c\<close> and the categories of
  the content are strings of ASCII characters, these are exactly the sentences whose
  category equals \<open>c\<close> up to the case of the letters \<open>A\<close> to \<open>Z\<close>, and the result is
  the empty list when there is none. The call throws only when \<open>getContent\<close> does, and
  then the same error.
\<close>

theorem getSentences_category_filter:
  "(getContent s now d t = (Inr content, s') \<longrightarrow>
      getSentences toLowerCase s now d t None = (Inr (sentences content), s')
      \<and> getSentences toLowerCase s now d t (Some []) = (Inr (sentences content), s')
      \<and> (c \<noteq> [] \<longrightarrow>
           getSentences toLowerCase s now d t (Some c)
             = (Inr (filter (\<lambda>x. toLowerCase (s_category x) = toLowerCase c)
                  (sentences content)), s'))
      \<and> (c \<noteq> [] \<and> lowersAscii toLowerCase \<and> isAscii c
           \<and> (\<forall>x \<in> set (sentences content). isAscii (s_category x)) \<longrightarrow>
           getSentences toLowerCase s now d t (Some c)
             = (Inr (filter (\<lambda>x. equalsIgnoreCase (s_category x) c) (sentences content)), s'))
      \<and> (c \<noteq> [] \<and> lowersAscii toLowerCase \<and> isAscii c
           \<and> (\<forall>x \<in> set (sentences content). isAscii (s_category x))
           \<and> (\<forall>x \<in> set (sentences content). \<not> equalsIgnoreCase (s_category x) c) \<longrightarrow>
           getSentences toLowerCase s now d t (Some c) = (Inr [], s')))
   \<and> (getContent s now d t = (Inl e, s') \<longrightarrow>
        getSentences toLowerCase s now d t category = (Inl e, s'))"
proof -
  have ascii: "filter (\<lambda>x. toLowerCase (s_category x) = toLowerCase c) (sentences content)
               = filter (\<lambda>x. equalsIgnoreCase (s_category x) c) (sentences content)"
    if "lowersAscii toLowerCase" and "isAscii c"
      and "\<forall>x \<in> set (sentences content). isAscii (s_category x)"
  proof (rule filter_cong [OF refl])
    fix x
    assume "x \<in> set (sentences content)"
    with that have "toLowerCase (s_category x) = asciiLower (s_category x)"
      and "toLowerCase c = asciiLower c"
      by (simp_all add: lowersAscii_def)
    then show "(toLowerCase (s_category x) = toLowerCase c) = equalsIgnoreCase (s_category x) c"
      by (simp add: asciiLower_eq_iff)
  qed
  have some: "getSentences toLowerCase s now d t (Some c)
                = (Inr (filter (\<lambda>x. toLowerCase (s_category x) = toLowerCase c)
                     (sentences content)), s')"
    if "getContent s now d t = (Inr content, s')" and "c \<noteq> []"
    using that by (simp add: getSentences_def)
  show ?thesis
  proof (intro conjI impI)
    assume "getContent s now d t = (Inr content, s')"
    then show "getSentences toLowerCase s now d t None = (Inr (sentences content), s')"
      and "getSentences toLowerCase s now d t (Some []) = (Inr (sentences content), s')"
      by (simp_all add: getSentences_def)
  next
    assume "getContent s now d t = (Inr content, s')" and "c \<noteq> []"
    then show "getSentences toLowerCase s now d t (Some c)
             = (Inr (filter (\<lambda>x. toLowerCase (s_category x) = toLowerCase c)
                  (sentences content)), s')"
      by (rule some)
  next
    assume g: "getContent s now d t = (Inr content, s')"
      and h: "c \<noteq> [] \<and> lowersAscii toLowerCase \<and> isAscii c
           \<and> (\<forall>x \<in> set (sentences content). isAscii (s_category x))"
    then show "getSentences toLowerCase s now d t (Some c)
             = (Inr (filter (\<lambda>x. equalsIgnoreCase (s_category x) c) (sentences content)), s')"
      using some [OF g] ascii by simp
  next
    assume g: "getContent s now d t = (Inr content, s')"
      and h: "c \<noteq> [] \<and> lowersAscii toLowerCase \<and> isAscii c
           \<and> (\<forall>x \<in> set (sentences content). isAscii (s_category x))
           \<and> (\<forall>x \<in> set (sentences content). \<not> equalsIgnoreCase (s_category x) c)"
    then have "filter (\<lambda>x. equalsIgnoreCase (s_category x) c) (sentences content) = []"
      by (simp add: filter_empty_conv)
    with g h show "getSentences toLowerCase s now d t (Some c) = (Inr [], s')"
      using some [OF g] ascii by simp
  next
    assume "getContent s now d t = (Inl e, s')"
    then show "getSentences toLowerCase s now d t category = (Inl e, s')"
      by (simp add: getSentences_def)
  qed
qed

text \<open>
  Claim C4, amended, on the loader that holds the sample content, whose categories are
  ASCII, with a \<open>toLowerCase\<close> that lowers the ASCII letters: no category, a category
  in another case, an unknown category, and a loader that cannot load.
\<close>

theorem getSentences_category_filter_witness:
  "getContent (loadedLoader None) 100 brokenDisk 101 = (Inr sampleContent, loadedLoader None)
   \<and> lowersAscii asciiLower \<and> isAscii ''KUBERNETES'' \<and> isAscii ''NonExistent''
   \<and> getSentences asciiLower (loadedLoader None) 100 brokenDisk 101 None
       = (Inr (sentences sampleContent), loadedLoader None)
   \<and> getSentences asciiLower (loadedLoader None) 100 brokenDisk 101 (Some ''KUBERNETES'')
       = (Inr [\<lparr>s_id = ''k8s-1'', s_text = ''Kubernetes makes...'', s_category = ''Kubernetes''\<rparr>,
               \<lparr>s_id = ''k8s-2'', s_text = ''A pod is...'', s_category = ''Kubernetes''\<rparr>],
          loadedLoader None)
   \<and> getSentences asciiLower (loadedLoader None) 100 brokenDisk 101 (Some ''NonExistent'')
       = (Inr [], loadedLoader None)
   \<and> getSentences asciiLower (newLoader None) 0 brokenDisk 1 (Some ''Kubernetes'')
       = (Inl FailedToLoadJsonFile, newLoader None)"
proof -
  have c: "getContent (loadedLoader None) 100 brokenDisk 101
             = (Inr sampleContent, loadedLoader None)"
    by (simp add: getContent_def loadedLoader_def)
  have e: "getContent (newLoader None) 0 brokenDisk 1
             = (Inl FailedToLoadJsonFile, newLoader None)"
    by (simp add: getContent_def loadContent_def newLoader_def readContent_brokenDisk)
  have a: "isAscii ''KUBERNETES''" "isAscii ''NonExistent''"
    by (simp_all add: isAscii_def)
  have k: "filter (\<lambda>x. equalsIgnoreCase (s_category x) ''KUBERNETES'') (sentences sampleContent)
           = [\<lparr>s_id = ''k8s-1'', s_text = ''Kubernetes makes...'', s_category = ''Kubernetes''\<rparr>,
              \<lparr>s_id = ''k8s-2'', s_text = ''A pod is...'', s_category = ''Kubernetes''\<rparr>]"
    by (simp add: sampleContent_def equalsIgnoreCase_def sameLetter_def isUpper_def isLower_def)
  have n: "\<forall>x \<in> set (sentences sampleContent). \<not> equalsIgnoreCase (s_category x) ''NonExistent''"
    by (simp add: sampleContent_def equalsIgnoreCase_def sameLetter_def isUpper_def isLower_def)
  show ?thesis
    using c e a k n lowersAscii_asciiLower isAscii_sampleContent
      getSentences_category_filter [of "loadedLoader None" 100 brokenDisk 101 sampleContent
        "loadedLoader None" asciiLower "''KUBERNETES''" FailedToLoadJsonFile None]
      getSentences_category_filter [of "loadedLoader None" 100 brokenDisk 101 sampleContent
        "loadedLoader None" asciiLower "''NonExistent''" FailedToLoadJsonFile None]
      getSentences_category_filter [of "newLoader None" 0 brokenDisk 1 sampleContent
        "newLoader None" asciiLower "''Kubernetes''" FailedToLoadJsonFile "Some ''Kubernetes''"]
    by (simp add: asciiLower_eq_iff)
qed

subsection \<open>Validation\<close>

lemma those_map_all:
  "those (map f xs) = Some ys \<Longrightarrow> y \<in> set ys \<Longrightarrow> \<exists>x \<in> set xs. f x = Some y"
  by (induction xs arbitrary: ys) (auto split: option.splits)

lemma SentenceSchema_fields:
  "SentenceSchema v = Some x \<Longrightarrow>
     s_id x \<noteq> [] \<and> s_text x \<noteq> [] \<and> length (s_text x) \<le> 500
     \<and> s_category x \<noteq> [] \<and> length (s_category x) \<le> 100"
  by (auto simp: SentenceSchema_def zString_def split: json.splits option.splits if_splits)

text \<open>What validation does enforce: every accepted sentence has an id and a category
  that are not empty.\<close>

lemma validated_sentences_fields:
  assumes "ContentConfigSchema v = Some c" and "x \<in> set (sentences c)"
  shows "s_id x \<noteq> [] \<and> s_category x \<noteq> [] \<and> length (s_category x) \<le> 100"
proof -
  from assms(1) obtain js where "those (map SentenceSchema js) = Some (sentences c)"
    by (auto simp: ContentConfigSchema_def zArray_def split: json.splits option.splits)
  with assms(2) obtain j where "SentenceSchema j = Some x"
    by (meson those_map_all)
  then show ?thesis using SentenceSchema_fields by blast
qed

text \<open>
  Claim C5 at files that repeat an id: validation accepts them and the loader serves
  the content, with the id \<open>a\<close> twice among the sentences and twice among the acronyms.
\<close>

theorem loader_serves_duplicate_ids:
  "readContent duplicateIdDisk = Inr duplicateIdContent
   \<and> fst (getContent (newLoader None) 0 duplicateIdDisk 1) = Inr duplicateIdContent
   \<and> map s_id (sentences duplicateIdContent) = [''a'', ''a'']
   \<and> map a_id (acronyms duplicateIdContent) = [''a'', ''a'']
   \<and> \<not> distinct (map s_id (sentences duplicateIdContent))
   \<and> \<not> distinct (map a_id (acronyms duplicateIdContent))"
  by (simp add: getContent_def loadContent_def newLoader_def readContent_def
      duplicateIdDisk_def duplicateIdContent_def loadJsonFile_def extractArray_def
      ContentConfigSchema_def zArray_def SentenceSchema_def AcronymSchema_def zString_def)

subsection \<open>Wrapped and bare content files\<close>

lemma extractArray_forms:
  assumes "file = JArr xs \<or> (\<exists>kvs. file = JObj kvs \<and> map_of kvs key = Some (JArr xs))"
  shows "extractArray key file = Inr (JArr xs)"
  using assms by (auto simp: extractArray_def)

lemma ContentConfigSchema_sample:
  "ContentConfigSchema
     (JObj [(''sentences'', JArr sampleSentences), (''acronyms'', JArr sampleAcronyms)])
     = Some sampleContent"
  by (simp add: sampleContent_def sampleSentences_def sampleAcronyms_def
      ContentConfigSchema_def zArray_def SentenceSchema_def AcronymSchema_def zString_def)

text \<open>
  Claim C9: when each of the two files parses to a bare array, or to an object whose
  key (\<open>sentences\<close>, \<open>acronyms\<close>) holds an array, the loader validates exactly the pair
  of these arrays; and when the validation succeeds, its result, the parse of the
  elements of the two arrays, is what \<open>loadContent\<close> caches.
\<close>

theorem loadContent_wrapped_or_bare:
  assumes "sentencesFile = JArr ss
             \<or> (\<exists>kvs. sentencesFile = JObj kvs \<and> map_of kvs ''sentences'' = Some (JArr ss))"
    and "acronymsFile = JArr as
             \<or> (\<exists>kvs. acronymsFile = JObj kvs \<and> map_of kvs ''acronyms'' = Some (JArr as))"
    and "\<not> isLoading s"
  shows "readContent \<lparr>sentences_json = Parsed sentencesFile, acronyms_json = Parsed acronymsFile\<rparr>
           = (case ContentConfigSchema (JObj [(''sentences'', JArr ss), (''acronyms'', JArr as)]) of
                None \<Rightarrow> Inl ContentValidationFailed
              | Some c \<Rightarrow> Inr c)
       \<and> (ContentConfigSchema (JObj [(''sentences'', JArr ss), (''acronyms'', JArr as)]) = Some c
            \<longrightarrow> loadContent s
                    \<lparr>sentences_json = Parsed sentencesFile, acronyms_json = Parsed acronymsFile\<rparr> t
                  = (Inr (), s\<lparr>cachedContent := Some c, lastLoadTime := t,
                                emitted := emitted s @ [contentUpdated c]\<rparr>)
               \<and> those (map SentenceSchema ss) = Some (sentences c)
               \<and> those (map AcronymSchema as) = Some (acronyms c))"
proof -
  have 1: "extractArray ''sentences'' sentencesFile = Inr (JArr ss)"
    using assms(1) by (rule extractArray_forms)
  have 2: "extractArray ''acronyms'' acronymsFile = Inr (JArr as)"
    using assms(2) by (rule extractArray_forms)
  have r: "readContent
             \<lparr>sentences_json = Parsed sentencesFile, acronyms_json = Parsed acronymsFile\<rparr>
           = (case ContentConfigSchema (JObj [(''sentences'', JArr ss), (''acronyms'', JArr as)]) of
                None \<Rightarrow> Inl ContentValidationFailed
              | Some c \<Rightarrow> Inr c)"
    by (simp add: readContent_def loadJsonFile_def 1 2)
  show ?thesis
    using assms(3) unfolding r
    by (auto simp: loadContent_def r ContentConfigSchema_def zArray_def split: option.splits)
qed

text \<open>
  Claim C9 on the sample content, once with both files wrapped and once with a bare
  sentences array and an acronyms object that has one more key.
\<close>

theorem loadContent_wrapped_or_bare_witness:
  "readContent sampleDisk = Inr sampleContent
   \<and> readContent bareDisk = Inr sampleContent
   \<and> cachedContent (snd (loadContent (newLoader None) sampleDisk 7)) = Some sampleContent
   \<and> cachedContent (snd (loadContent (newLoader None) bareDisk 7)) = Some sampleContent"
  using
    loadContent_wrapped_or_bare [of "JObj [(''sentences'', JArr sampleSentences)]"
      sampleSentences "JObj [(''acronyms'', JArr sampleAcronyms)]" sampleAcronyms
      "newLoader None" sampleContent 7]
    loadContent_wrapped_or_bare [of "JArr sampleSentences" sampleSentences
      "JObj [(''version'', JNum 1), (''acronyms'', JArr sampleAcronyms)]" sampleAcronyms
      "newLoader None" sampleContent 7]
    ContentConfigSchema_sample
  by (simp add: sampleDisk_def bareDisk_def newLoader_def)

subsection \<open>Pagination\<close>

lemma map_nth_upt: "b \<le> length xs \<Longrightarrow> map ((!) xs) [a..<b] = take (b - a) (drop a xs)"
  by (rule nth_equalityI) auto

text \<open>\<open>slice\<close> between two bounds that are not negative.\<close>

lemma slice_nonneg:
  assumes "0 \<le> start" and "0 \<le> stop"
  shows "slice xs start stop
           = take (nat \<lfloor>stop\<rfloor> - nat \<lfloor>start\<rfloor>) (drop (nat \<lfloor>start\<rfloor>) xs)"
proof -
  define a where "a = nat \<lfloor>start\<rfloor>"
  define b where "b = nat \<lfloor>stop\<rfloor>"
  have fa: "0 \<le> \<lfloor>start\<rfloor>" and fb: "0 \<le> \<lfloor>stop\<rfloor>" using assms by simp_all
  have ka: "nat (min \<lfloor>start\<rfloor> (int (length xs))) = min a (length xs)"
    using fa unfolding a_def min_def by (auto simp: nat_le_iff)
  have kb: "nat (min \<lfloor>stop\<rfloor> (int (length xs))) = min b (length xs)"
    using fb unfolding b_def min_def by (auto simp: nat_le_iff)
  have "slice xs start stop = map ((!) xs) [min a (length xs) ..< min b (length xs)]"
    using assms fa fb by (simp add: slice_def toIntegerOrInfinity_def Let_def ka kb not_less)
  also have "\<dots> = take (min b (length xs) - min a (length xs)) (drop (min a (length xs)) xs)"
    by (rule map_nth_upt) simp
  also have "\<dots> = take (b - a) (drop a xs)"
    by (cases "a \<le> length xs") (auto simp: min_def)
  finally show ?thesis by (simp add: a_def b_def)
qed

lemma slice_of_nat: "slice xs (of_nat a) (of_nat (a + n)) = take n (drop a xs)"
  by (subst slice_nonneg) (simp_all del: of_nat_add)

lemma slice_whole: "slice xs (of_nat a) (of_nat a + of_nat n) = take n (drop a xs)"
  using slice_of_nat [of xs a n] by simp

lemma slice_0: "slice xs 0 (of_nat m) = take m xs"
  using slice_whole [of xs 0 m] by simp

lemma slice_0_numeral: "slice xs 0 (numeral k) = take (numeral k) xs"
  using slice_0 [of xs "numeral k"] by simp














subsection \<open>The client-side history\<close>

lemma historyOf_addToHistory:
  "historyOf ty (addToHistory m ty i h)
     = take m (i # filter (\<lambda>item. item \<noteq> i) (historyOf ty h))"
  by (cases ty) (simp_all add: addToHistory_def historyOf_def setHistoryOf_def slice_0 Let_def)

lemma historyOf_addToHistory_other:
  "ty' \<noteq> ty \<Longrightarrow> historyOf ty' (addToHistory m ty i h) = historyOf ty' h"
  by (cases ty; cases ty') (simp_all add: addToHistory_def historyOf_def setHistoryOf_def Let_def)

lemma remdups_snoc: "remdups (xs @ [x]) = filter (\<lambda>y. y \<noteq> x) (remdups xs) @ [x]"
  by (induction xs) auto

text \<open>
  In a list without duplicates at most one element is \<open>x\<close>, so dropping \<open>x\<close> from the
  first \<open>k + 1\<close> elements leaves the first \<open>k\<close> of the elements other than \<open>x\<close>.
\<close>

lemma take_filter_take:
  "distinct xs \<Longrightarrow>
     take k (filter (\<lambda>y. y \<noteq> x) (take (Suc k) xs)) = take k (filter (\<lambda>y. y \<noteq> x) xs)"
proof (induction xs arbitrary: k)
  case Nil
  then show ?case by simp
next
  case (Cons y ys)
  show ?case
  proof (cases k)
    case 0
    then show ?thesis by simp
  next
    case (Suc j)
    show ?thesis
    proof (cases "y = x")
      case True
      with Cons.prems have "x \<notin> set ys" by simp
      then have "filter (\<lambda>y. y \<noteq> x) ys = ys" by (auto simp: filter_id_conv)
      moreover have "filter (\<lambda>y. y \<noteq> x) (take (Suc j) ys) = take (Suc j) ys"
        using \<open>x \<notin> set ys\<close> by (auto simp: filter_id_conv dest: in_set_takeD)
      ultimately show ?thesis using True Suc by simp
    next
      case False
      with Cons Suc show ?thesis by simp
    qed
  qed
qed

lemma add_step_characterised:
  assumes "distinct L"
  shows "take m (x # filter (\<lambda>y. y \<noteq> x) (take m L)) = take m (x # filter (\<lambda>y. y \<noteq> x) L)"
proof (cases m)
  case 0
  then show ?thesis by simp
next
  case (Suc k)
  then show ?thesis using take_filter_take [OF assms, of k x] by simp
qed

lemma history_characterised:
  "historyOf ty (foldl (\<lambda>h (ty', i). addToHistory m ty' i h) (initialHistory m) events)
     = take m (rev (remdups (idsOf ty events)))"
proof (induction events rule: rev_induct)
  case Nil
  then show ?case by (cases ty) (simp_all add: idsOf_def historyOf_def initialHistory_def)
next
  case (snoc e events)
  obtain ty' i where e: "e = (ty', i)" by (cases e)
  show ?case
  proof (cases "ty' = ty")
    case True
    have d: "distinct (rev (remdups (idsOf ty events)))" by simp
    show ?thesis
      using snoc add_step_characterised [OF d, of m i] True
      by (simp add: e historyOf_addToHistory idsOf_def remdups_snoc rev_filter)
  next
    case False
    then show ?thesis
      using snoc by (simp add: e historyOf_addToHistory_other idsOf_def)
  qed
qed

lemma clearHistory_initial: "clearHistory m = initialHistory m"
  by (simp add: clearHistory_def initialHistory_def)

text \<open>
  Claim C8. After any sequence of \<open>addToHistory\<close> calls on the initial history, the
  history of a type is the list of the ids added for that type, each once, the most
  recently added first, cut to its first \<open>maxHistorySize\<close> entries: so it is no longer
  than \<open>maxHistorySize\<close>, has no duplicates, and what the cut drops are the oldest
  entries. One call on any history leaves at most \<open>maxHistorySize\<close> entries, keeps a
  history free of duplicates so, puts the new id first, and, on a full history that
  does not hold the id, drops exactly the last, oldest entry.
\<close>

theorem history_bounded_recent_first:
  "historyOf ty (historyAfter m events) = take m (rev (remdups (idsOf ty events)))
   \<and> length (historyOf ty (historyAfter m events)) \<le> m
   \<and> distinct (historyOf ty (historyAfter m events))
   \<and> length (historyOf ty (addToHistory m ty i h)) \<le> m
   \<and> (distinct (historyOf ty h) \<longrightarrow> distinct (historyOf ty (addToHistory m ty i h)))
   \<and> (0 < m \<longrightarrow> hd (historyOf ty (addToHistory m ty i h)) = i)
   \<and> (0 < m \<and> length (historyOf ty h) = m \<and> i \<notin> set (historyOf ty h) \<longrightarrow>
         historyOf ty (addToHistory m ty i h) = i # butlast (historyOf ty h))"
proof -
  have a: "historyOf ty (historyAfter m events) = take m (rev (remdups (idsOf ty events)))"
    unfolding historyAfter_def by (rule history_characterised)
  have b: "length (take m (rev (remdups (idsOf ty events)))) \<le> m" by simp
  have c: "distinct (take m (rev (remdups (idsOf ty events))))" by simp
  have d: "length (historyOf ty (addToHistory m ty i h)) \<le> m"
    by (simp add: historyOf_addToHistory)
  have e: "distinct (historyOf ty h) \<longrightarrow> distinct (historyOf ty (addToHistory m ty i h))"
    by (simp add: historyOf_addToHistory)
  have f: "0 < m \<longrightarrow> hd (historyOf ty (addToHistory m ty i h)) = i"
    by (cases m) (simp_all add: historyOf_addToHistory)
  have g: "0 < m \<and> length (historyOf ty h) = m \<and> i \<notin> set (historyOf ty h) \<longrightarrow>
         historyOf ty (addToHistory m ty i h) = i # butlast (historyOf ty h)"
  proof (intro impI, elim conjE)
    assume m: "0 < m" and l: "length (historyOf ty h) = m" and i: "i \<notin> set (historyOf ty h)"
    from i have "filter (\<lambda>item. item \<noteq> i) (historyOf ty h) = historyOf ty h"
      by (auto simp: filter_id_conv)
    then show "historyOf ty (addToHistory m ty i h) = i # butlast (historyOf ty h)"
      using m l by (cases m) (simp_all add: historyOf_addToHistory butlast_conv_take)
  qed
  show ?thesis using a b c d e f g by simp
qed

text \<open>
  Claim C8 with a cap of 2: after the sentence ids \<open>a\<close>, \<open>b\<close>, \<open>a\<close>, \<open>c\<close> the history
  is \<open>c\<close>, \<open>a\<close>; and adding \<open>c\<close> to the full history \<open>a\<close>, \<open>b\<close> drops \<open>b\<close>.
\<close>

theorem history_bounded_recent_first_witness:
  "historyOf Sentences (historyAfter 2 sampleEvents) = [''c'', ''a'']
   \<and> historyOf Acronyms (historyAfter 2 sampleEvents) = [''x'']
   \<and> historyOf Sentences (addToHistory 2 Sentences ''c''
        \<lparr>h_sentences = [''a'', ''b''], h_acronyms = [''x''], maxHistorySize = 2\<rparr>)
       = [''c'', ''a'']"
  using history_bounded_recent_first [of Sentences 2 sampleEvents "''c''"
          "\<lparr>h_sentences = [''a'', ''b''], h_acronyms = [''x''], maxHistorySize = 2\<rparr>"]
    history_bounded_recent_first [of Acronyms 2 sampleEvents "''c''"
          "\<lparr>h_sentences = [''a'', ''b''], h_acronyms = [''x''], maxHistorySize = 2\<rparr>"]
  by (simp add: idsOf_def sampleEvents_def historyOf_def)

subsection \<open>Random selection against the history\<close>

lemma h_sentences_add:
  "h_sentences (addToHistory m Sentences i h)
     = take m (i # filter (\<lambda>item. item \<noteq> i) (h_sentences h))"
  "h_acronyms (addToHistory m Sentences i h) = h_acronyms h"
  "h_acronyms (addToHistory m Acronyms i h)
     = take m (i # filter (\<lambda>item. item \<noteq> i) (h_acronyms h))"
  "h_sentences (addToHistory m Acronyms i h) = h_sentences h"
  by (simp_all add: addToHistory_def historyOf_def setHistoryOf_def slice_0 Let_def)

lemma recentInv_add:
  assumes "2 \<le> m" and "recentInv m shown hist"
  shows "recentInv m (x # shown) (take m (x # filter (\<lambda>item. item \<noteq> x) hist))"
proof -
  obtain k where m: "m = Suc (Suc k)"
    using assms(1) by (metis Suc_le_D numeral_2_eq_2 Suc_le_mono)
  show ?thesis
  proof (cases shown)
    case Nil
    then show ?thesis by (simp add: recentInv_def m)
  next
    case (Cons y ys)
    with assms(2) obtain hs where hist: "hist = y # hs"
      by (cases hist) (auto simp: recentInv_def)
    show ?thesis
      by (cases "y = x") (simp_all add: recentInv_def m Cons hist)
  qed
qed

text \<open>A number in \<open>[0, 1)\<close> picks an element of a list that is not empty.\<close>

lemma randomElement_in_range:
  assumes "0 \<le> r" and "r < 1" and "xs \<noteq> []"
  shows "\<exists>x \<in> set xs. randomElement r xs = Some x"
proof -
  have n: "0 < length xs" using assms(3) by simp
  have lo: "0 \<le> r * of_nat (length xs)" using assms(1) by simp
  have "r * of_nat (length xs) < 1 * of_nat (length xs)"
    using assms(2) n by (intro mult_strict_right_mono) simp_all
  then have hi: "\<lfloor>r * of_nat (length xs)\<rfloor> < int (length xs)"
    by (simp add: floor_less_iff)
  have f0: "0 \<le> \<lfloor>r * of_nat (length xs)\<rfloor>" using lo by simp
  with hi have "nat \<lfloor>r * of_nat (length xs)\<rfloor> < length xs" by arith
  then have mem: "xs ! nat \<lfloor>r * of_nat (length xs)\<rfloor> \<in> set xs" by (rule nth_mem)
  have "randomElement r xs = Some (xs ! nat \<lfloor>r * of_nat (length xs)\<rfloor>)"
    unfolding randomElement_def Let_def using hi f0 by (simp only: if_True simp_thms)
  with mem show ?thesis by blast
qed

text \<open>A pool with more distinct ids than the history has entries has an unshown item.\<close>

lemma unshown_nonempty:
  assumes "length hist \<le> m" and "m < card (f ` set pool)"
  shows "filter (\<lambda>s. f s \<notin> set hist) pool \<noteq> []"
proof
  assume "filter (\<lambda>s. f s \<notin> set hist) pool = []"
  then have "f ` set pool \<subseteq> set hist" by (auto simp: filter_empty_conv)
  then have "card (f ` set pool) \<le> card (set hist)" by (intro card_mono) simp_all
  also have "\<dots> \<le> length hist" by (rule card_length)
  finally show False using assms by simp
qed

lemma getRandomSentence_cases:
  assumes "0 \<le> r" and "r < 1"
  shows "getRandomSentence m S h category r = Inr (None, h)
         \<or> (\<exists>x. getRandomSentence m S h category r
                   = Inr (Some x, addToHistory m Sentences (s_id x) h))"
proof (cases "getFilteredSentences S category = []")
  case True
  then show ?thesis by (simp add: getRandomSentence_def)
next
  case False
  let ?c = "if filter (\<lambda>s. s_id s \<notin> set (h_sentences h)) (getFilteredSentences S category) \<noteq> []
            then filter (\<lambda>s. s_id s \<notin> set (h_sentences h)) (getFilteredSentences S category)
            else getFilteredSentences S category"
  have "?c \<noteq> []" using False by simp
  from randomElement_in_range [OF assms this] obtain x where "randomElement r ?c = Some x"
    by blast
  then show ?thesis using False by (simp add: getRandomSentence_def Let_def)
qed

lemma getRandomAcronym_cases:
  assumes "0 \<le> r" and "r < 1"
  shows "getRandomAcronym m A h r = Inr (None, h)
         \<or> (\<exists>x. getRandomAcronym m A h r = Inr (Some x, addToHistory m Acronyms (a_id x) h))"
proof (cases "A = []")
  case True
  then show ?thesis by (simp add: getRandomAcronym_def)
next
  case False
  let ?c = "if filter (\<lambda>a. a_id a \<notin> set (h_acronyms h)) A \<noteq> []
            then filter (\<lambda>a. a_id a \<notin> set (h_acronyms h)) A else A"
  have "?c \<noteq> []" using False by simp
  from randomElement_in_range [OF assms this] obtain x where "randomElement r ?c = Some x"
    by blast
  then show ?thesis using False by (simp add: getRandomAcronym_def Let_def)
qed

lemma getRandomSentence_result:
  "getRandomSentence m S h0 category r = Inr (res, h) \<Longrightarrow>
     (case res of None \<Rightarrow> h = h0 | Some x \<Rightarrow> h = addToHistory m Sentences (s_id x) h0)"
  by (auto simp: getRandomSentence_def Let_def split: if_splits option.splits)

lemma getRandomAcronym_result:
  "getRandomAcronym m A h0 r = Inr (res, h) \<Longrightarrow>
     (case res of None \<Rightarrow> h = h0 | Some x \<Rightarrow> h = addToHistory m Acronyms (a_id x) h0)"
  by (auto simp: getRandomAcronym_def Let_def split: if_splits option.splits)

text \<open>With a history window of at least 2, every call keeps the invariant of the run.\<close>

lemma step_runInv:
  assumes "2 \<le> m" and "runInv m st" and "step m S A st c = Inr st'"
  shows "runInv m st'"
proof (cases c)
  case (GetRandomSentence category r)
  then obtain res h where g: "getRandomSentence m S (history st) category r = Inr (res, h)"
    using assms(3) by (auto simp: step_def split: sum.splits)
  note h = getRandomSentence_result [OF g]
  show ?thesis
  proof (cases res)
    case None
    then show ?thesis using assms g h GetRandomSentence by (auto simp: step_def runInv_def)
  next
    case (Some x)
    with h have hx: "h = addToHistory m Sentences (s_id x) (history st)" by simp
    have st': "st' = st\<lparr>shownSentences := s_id x # shownSentences st, history := h\<rparr>"
      using assms(3) g Some GetRandomSentence by (simp add: step_def)
    show ?thesis
      using assms(2)
        recentInv_add [OF assms(1), of "shownSentences st" "h_sentences (history st)" "s_id x"]
      by (simp add: st' runInv_def hx h_sentences_add)
  qed
next
  case (GetRandomAcronym r)
  then obtain res h where g: "getRandomAcronym m A (history st) r = Inr (res, h)"
    using assms(3) by (auto simp: step_def split: sum.splits)
  note h = getRandomAcronym_result [OF g]
  show ?thesis
  proof (cases res)
    case None
    then show ?thesis using assms g h GetRandomAcronym by (auto simp: step_def runInv_def)
  next
    case (Some x)
    with h have hx: "h = addToHistory m Acronyms (a_id x) (history st)" by simp
    have st': "st' = st\<lparr>shownAcronyms := a_id x # shownAcronyms st, history := h\<rparr>"
      using assms(3) g Some GetRandomAcronym by (simp add: step_def)
    show ?thesis
      using assms(2)
        recentInv_add [OF assms(1), of "shownAcronyms st" "h_acronyms (history st)" "a_id x"]
      by (simp add: st' runInv_def hx h_sentences_add)
  qed
qed

lemma run_runInv:
  assumes "2 \<le> m"
  shows "runInv m st \<Longrightarrow> run m S A st calls = Inr st' \<Longrightarrow> runInv m st'"
proof (induction calls arbitrary: st)
  case Nil
  then show ?case by simp
next
  case (Cons c calls)
  from Cons.prems(2) obtain st1 where s1: "step m S A st c = Inr st1"
    and r: "run m S A st1 calls = Inr st'"
    by (auto split: sum.splits)
  from step_runInv [OF assms Cons.prems(1) s1] have "runInv m st1" .
  from Cons.IH [OF this r] show ?case .
qed

lemma runInv_initial: "runInv m (initialRun m)"
  by (simp add: runInv_def recentInv_def initialRun_def initialHistory_def)

lemma step_total: "inRange c \<Longrightarrow> \<exists>st'. step m S A st c = Inr st'"
proof (cases c)
  case (GetRandomSentence category r)
  assume "inRange c"
  with GetRandomSentence have "0 \<le> r" "r < 1" by (simp_all add: inRange_def)
  from getRandomSentence_cases [OF this, of m S "history st" category]
  show ?thesis by (auto simp: step_def GetRandomSentence)
next
  case (GetRandomAcronym r)
  assume "inRange c"
  with GetRandomAcronym have "0 \<le> r" "r < 1" by (simp_all add: inRange_def)
  from getRandomAcronym_cases [OF this, of m A "history st"]
  show ?thesis by (auto simp: step_def GetRandomAcronym)
qed

text \<open>A sequence of calls with random numbers in \<open>[0, 1)\<close> runs to its end.\<close>

lemma run_total: "list_all inRange calls \<Longrightarrow> \<exists>st'. run m S A st calls = Inr st'"
proof (induction calls arbitrary: st)
  case Nil
  then show ?case by simp
next
  case (Cons c calls)
  from Cons.prems have "inRange c" by simp
  then obtain st1 where "step m S A st c = Inr st1" using step_total by blast
  with Cons show ?case by simp
qed

lemma getRandomSentence_fresh:
  assumes "0 \<le> r" and "r < 1" and "length (h_sentences h) \<le> m"
    and "m < card (s_id ` set (getFilteredSentences S category))"
  shows "\<exists>x. getRandomSentence m S h category r
                = Inr (Some x, addToHistory m Sentences (s_id x) h)
              \<and> x \<in> set (getFilteredSentences S category)
              \<and> s_id x \<notin> set (h_sentences h)"
proof -
  let ?av = "getFilteredSentences S category"
  let ?un = "filter (\<lambda>s. s_id s \<notin> set (h_sentences h)) ?av"
  have un: "?un \<noteq> []" using assms(3,4) by (rule unshown_nonempty)
  then have av: "?av \<noteq> []" by auto
  from randomElement_in_range [OF assms(1,2) un] obtain x
    where x: "x \<in> set ?un" "randomElement r ?un = Some x" by blast
  have "getRandomSentence m S h category r = Inr (Some x, addToHistory m Sentences (s_id x) h)"
    using un av x(2) by (simp add: getRandomSentence_def Let_def)
  with x(1) show ?thesis by auto
qed

lemma getRandomAcronym_fresh:
  assumes "0 \<le> r" and "r < 1" and "length (h_acronyms h) \<le> m"
    and "m < card (a_id ` set A)"
  shows "\<exists>x. getRandomAcronym m A h r = Inr (Some x, addToHistory m Acronyms (a_id x) h)
              \<and> x \<in> set A \<and> a_id x \<notin> set (h_acronyms h)"
proof -
  let ?un = "filter (\<lambda>a. a_id a \<notin> set (h_acronyms h)) A"
  have un: "?un \<noteq> []" using assms(3,4) by (rule unshown_nonempty)
  then have av: "A \<noteq> []" by auto
  from randomElement_in_range [OF assms(1,2) un] obtain x
    where x: "x \<in> set ?un" "randomElement r ?un = Some x" by blast
  have "getRandomAcronym m A h r = Inr (Some x, addToHistory m Acronyms (a_id x) h)"
    using un av x(2) by (simp add: getRandomAcronym_def Let_def)
  with x(1) show ?thesis by auto
qed

text \<open>
  Claim C2, as the specification states it, fails when the pool is exactly as large as
  the history window. With \<open>maxHistorySize = 2\<close> and a pool of two sentences (not
  smaller than the window), two calls show \<open>a\<close> and \<open>b\<close>; the history then holds the
  whole pool, the third call chooses among all sentences and, with the random number
  1/2, returns \<open>b\<close> again, the id shown last.
\<close>

theorem getRandom_repeat_counterexample:
  "run 2 twoSentences [] (initialRun 2) [GetRandomSentence None 0, GetRandomSentence None 0]
     = Inr \<lparr>shownSentences = [''b'', ''a''], shownAcronyms = [],
            history = \<lparr>h_sentences = [''b'', ''a''], h_acronyms = [], maxHistorySize = 2\<rparr>\<rparr>
   \<and> \<not> length (getFilteredSentences twoSentences None) < 2
   \<and> getRandomSentence 2 twoSentences
         \<lparr>h_sentences = [''b'', ''a''], h_acronyms = [], maxHistorySize = 2\<rparr> None (1/2)
       = Inr (Some \<lparr>s_id = ''b'', s_text = ''Second...'', s_category = ''c''\<rparr>,
              \<lparr>h_sentences = [''b'', ''a''], h_acronyms = [], maxHistorySize = 2\<rparr>)
   \<and> ''b'' \<in> set (take 2 [''b'', ''a''])"
  by (simp add: step_def getRandomSentence_def getFilteredSentences_def twoSentences_def
      randomElement_def initialRun_def initialHistory_def addToHistory_def historyOf_def
      setHistoryOf_def slice_0_numeral Let_def)

text \<open>
  Claim C2, amended. Let \<open>maxHistorySize\<close> be at least 2 and let any sequence of
  \<open>getRandomSentence\<close> and \<open>getRandomAcronym\<close> calls have run from the empty history.
  Then a further \<open>getRandomSentence\<close> call whose pool, the sentences of the requested
  category, holds more than \<open>maxHistorySize\<close> distinct ids returns a sentence of the
  pool whose id is not in the history, and so is neither of the two sentence ids
  shown last; and likewise \<open>getRandomAcronym\<close> when the acronyms hold more than
  \<open>maxHistorySize\<close> distinct ids.
\<close>

theorem getRandom_avoids_recent:
  assumes "2 \<le> m" and "run m S A (initialRun m) calls = Inr st" and "0 \<le> r" and "r < 1"
  shows "(m < card (s_id ` set (getFilteredSentences S category)) \<longrightarrow>
           (\<exists>x h'. getRandomSentence m S (history st) category r = Inr (Some x, h')
              \<and> x \<in> set (getFilteredSentences S category)
              \<and> s_id x \<notin> set (take 2 (shownSentences st))
              \<and> s_id x \<notin> set (h_sentences (history st))))
       \<and> (m < card (a_id ` set A) \<longrightarrow>
           (\<exists>x h'. getRandomAcronym m A (history st) r = Inr (Some x, h')
              \<and> x \<in> set A
              \<and> a_id x \<notin> set (take 2 (shownAcronyms st))
              \<and> a_id x \<notin> set (h_acronyms (history st))))"
proof -
  have inv: "runInv m st"
    using run_runInv [OF assms(1) runInv_initial assms(2)] .
  then have ls: "length (h_sentences (history st)) \<le> m"
    and ss: "set (take 2 (shownSentences st)) \<subseteq> set (h_sentences (history st))"
    and la: "length (h_acronyms (history st)) \<le> m"
    and sa: "set (take 2 (shownAcronyms st)) \<subseteq> set (h_acronyms (history st))"
    by (simp_all add: runInv_def recentInv_def)
  show ?thesis
  proof (intro conjI impI)
    assume "m < card (s_id ` set (getFilteredSentences S category))"
    from getRandomSentence_fresh [OF assms(3,4) ls this] ss
    show "\<exists>x h'. getRandomSentence m S (history st) category r = Inr (Some x, h')
              \<and> x \<in> set (getFilteredSentences S category)
              \<and> s_id x \<notin> set (take 2 (shownSentences st))
              \<and> s_id x \<notin> set (h_sentences (history st))"
      by blast
  next
    assume "m < card (a_id ` set A)"
    from getRandomAcronym_fresh [OF assms(3,4) la this] sa
    show "\<exists>x h'. getRandomAcronym m A (history st) r = Inr (Some x, h')
              \<and> x \<in> set A
              \<and> a_id x \<notin> set (take 2 (shownAcronyms st))
              \<and> a_id x \<notin> set (h_acronyms (history st))"
      by blast
  qed
qed

lemma run_fallbackCalls:
  "run 2 (sentences defaultFallbackContent) (acronyms defaultFallbackContent) (initialRun 2)
     fallbackCalls = Inr fallbackRun"
  by (simp add: fallbackCalls_def fallbackRun_def step_def getRandomSentence_def
      getRandomAcronym_def getFilteredSentences_def defaultFallbackContent_def
      randomElement_def initialRun_def initialHistory_def addToHistory_def historyOf_def
      setHistoryOf_def slice_0_numeral Let_def)

lemma card_fallback:
  "2 < card (s_id ` set (getFilteredSentences (sentences defaultFallbackContent) None))"
  "2 < card (a_id ` set (acronyms defaultFallbackContent))"
  by (simp_all add: getFilteredSentences_def defaultFallbackContent_def)

text \<open>
  Claim C2, amended, on the default fallback content (four sentences, four acronyms)
  with a window of 2, after two calls of each kind.
\<close>

theorem getRandom_avoids_recent_witness:
  "run 2 (sentences defaultFallbackContent) (acronyms defaultFallbackContent) (initialRun 2)
     fallbackCalls = Inr fallbackRun
   \<and> (\<exists>x h'. getRandomSentence 2 (sentences defaultFallbackContent) (history fallbackRun) None 0
                 = Inr (Some x, h')
           \<and> x \<in> set (getFilteredSentences (sentences defaultFallbackContent) None)
           \<and> s_id x \<notin> set (take 2 (shownSentences fallbackRun))
           \<and> s_id x \<notin> set (h_sentences (history fallbackRun)))
   \<and> (\<exists>x h'. getRandomAcronym 2 (acronyms defaultFallbackContent) (history fallbackRun) 0
                 = Inr (Some x, h')
           \<and> x \<in> set (acronyms defaultFallbackContent)
           \<and> a_id x \<notin> set (take 2 (shownAcronyms fallbackRun))
           \<and> a_id x \<notin> set (h_acronyms (history fallbackRun)))"
  using getRandom_avoids_recent [OF _ run_fallbackCalls, of 0 None] card_fallback
    run_fallbackCalls
  by simp

end
